theory Spec2Isabelle
  imports Main
begin

section \<open>Data model\<close>

text \<open>
  An article is the dictionary \<^verbatim>\<open>{'title': title, 'link': link}\<close> that
  \<^verbatim>\<open>parse_article\<close> builds; both entries are strings (the text of the title anchor
  and its \<^verbatim>\<open>href\<close>).
\<close>

record article =
  title :: string
  link :: string

text \<open>
  Exceptions raised by the browser driver or the standard library. Every one of them is a
  subclass of Python's \<^verbatim>\<open>Exception\<close>, hence caught by \<^verbatim>\<open>except Exception\<close>.
\<close>

datatype exception =
    TimeoutException
  | WebDriverException
  | StaleElementReferenceException
  | TypeError
  | ValueError

section \<open>The writer: \<^verbatim>\<open>save_to_csv\<close>\<close>

text \<open>
  \<^verbatim>\<open>unique_links = set(article['link'] for article in parsed_articles)\<close>:
  iterating a Python set visits each of its elements once, in an order the language does
  not fix. The order is therefore an argument of the model: a list \<open>ls\<close> is an iteration
  of the set built from \<open>xs\<close> when it has no repetition and the same elements.
\<close>

definition set_iteration :: "'a list \<Rightarrow> 'a list \<Rightarrow> bool" where
  "set_iteration xs ls \<longleftrightarrow> distinct ls \<and> set ls = set xs"

text \<open>
  \<^verbatim>\<open>next((a for a in parsed_articles if a['link'] == link), None)\<close>: the first article
  of the list with that link, or \<^verbatim>\<open>None\<close>.
\<close>

fun first_with_link :: "article list \<Rightarrow> string \<Rightarrow> article option" where
  "first_with_link [] l = None"
| "first_with_link (a # as) l = (if link a = l then Some a else first_with_link as l)"

text \<open>
  The body of \<^verbatim>\<open>for link in unique_links\<close>. A row is the pair of cells given to
  \<^verbatim>\<open>writer.writerow\<close>. An article found is a dictionary with two keys, hence truthy, so
  \<^verbatim>\<open>if article:\<close> only filters \<^verbatim>\<open>None\<close>.
\<close>

fun write_rows :: "article list \<Rightarrow> string list \<Rightarrow> (string \<times> string) list" where
  "write_rows parsed_articles [] = []"
| "write_rows parsed_articles (l # ls) =
     (case first_with_link parsed_articles l of
        None \<Rightarrow> write_rows parsed_articles ls
      | Some a \<Rightarrow> (title a, link a) # write_rows parsed_articles ls)"

text \<open>
  The rows of the file written by \<^verbatim>\<open>save_to_csv\<close>: the header, then the data rows.
  \<open>unique_links\<close> is the order in which the set of links is iterated.
\<close>

definition save_to_csv :: "string list \<Rightarrow> article list \<Rightarrow> (string \<times> string) list" where
  "save_to_csv unique_links parsed_articles =
     (''Title'', ''Link'') # write_rows parsed_articles unique_links"

definition data_rows :: "(string \<times> string) list \<Rightarrow> (string \<times> string) list" where
  "data_rows csv = tl csv"

definition rows_with_link :: "string \<Rightarrow> (string \<times> string) list \<Rightarrow> (string \<times> string) list" where
  "rows_with_link l rows = filter (\<lambda>r. snd r = l) rows"

definition example_articles :: "article list" where
  "example_articles =
     [\<lparr>title = ''A'', link = ''L1''\<rparr>, \<lparr>title = ''B'', link = ''L1''\<rparr>,
      \<lparr>title = ''C'', link = ''L2''\<rparr>]"

section \<open>The browser as seen by one crawl task\<close>

text \<open>
  The script talks to a browser through the driver. Its answers are the input of the
  model: what each call returns or raises. One crawl task opens every page number at most
  once, so the answers are indexed by the page number.
\<close>

text \<open>
  The title anchor of an article node: \<^verbatim>\<open>title_elem.text\<close> and
  \<^verbatim>\<open>title_elem.get_attribute('href')\<close>, each a string or an exception.
\<close>

record element =
  elem_text :: "exception + string"
  href :: "exception + string"

text \<open>
  An article node, given by the outcome of
  \<^verbatim>\<open>WebDriverWait(article, ARTICLE_PARSE_TIMEOUT).until(...)\<close> on it: the title anchor,
  or the exception raised (\<open>TimeoutException\<close> when the anchor does not appear).
\<close>

type_synonym node = "exception + element"

text \<open>
  A listing page:
  \<^item> \<open>navigate\<close>: building the URL and \<^verbatim>\<open>driver.get(url)\<close> (lines 77-78, outside the
    \<^verbatim>\<open>try\<close>); \<open>Some e\<close> when one of them raises \<open>e\<close>;
  \<^item> \<open>marker_wait\<close>: the wait for \<^verbatim>\<open>article.tm-articles-list__item\<close>; \<open>None\<close> when
    the marker is found, \<open>Some e\<close> when the wait raises \<open>e\<close>;
  \<^item> \<open>scroll_height i\<close>: the \<open>i\<close>-th measurement of \<^verbatim>\<open>document.body.scrollHeight\<close>
    (measurement 0 before the loop, measurement \<open>i > 0\<close> after the \<open>i\<close>-th scroll and
    pause), or the exception raised by the scripts;
  \<^item> \<open>find_elements\<close>: the article nodes of the page, or the exception raised.
\<close>

record page =
  navigate :: "exception option"
  marker_wait :: "exception option"
  scroll_height :: "nat \<Rightarrow> exception + int"
  find_elements :: "exception + node list"

text \<open>
  The browser session of one task: whether \<^verbatim>\<open>webdriver.Firefox(...)\<close> and
  \<^verbatim>\<open>driver.install_addon(...)\<close> raise, and the pages. \<^verbatim>\<open>driver.quit()\<close> is taken to
  return.
\<close>

record session =
  firefox :: "exception option"
  install_addon :: "exception option"
  pages :: "nat \<Rightarrow> page"

text \<open>The sessions met by the tasks, by hub URL template and difficulty.\<close>

type_synonym web = "string \<Rightarrow> string \<Rightarrow> session"

text \<open>
  What a task does to its browser, in order: \<open>Start\<close> a session was created,
  \<open>Open n\<close> \<^verbatim>\<open>open_habr_hub\<close> requested page \<open>n\<close>, \<open>Scroll n\<close> and \<open>Extract n\<close>
  \<^verbatim>\<open>scroll_to_load_articles\<close> and \<^verbatim>\<open>parse_articles\<close> ran on page \<open>n\<close>, \<open>Quit\<close>
  \<^verbatim>\<open>driver.quit()\<close> was called.
\<close>

datatype event = Start | Open nat | Scroll nat | Extract nat | Quit

section \<open>The crawler\<close>

definition NUM_PAGES_PER_SEARCH :: nat where
  "NUM_PAGES_PER_SEARCH = 16"

definition ALLOWED_DIFFICULTIES :: "string list" where
  "ALLOWED_DIFFICULTIES = [''/hard'', ''/medium'']"

definition SEARCH_TAGS :: "string list" where
  "SEARCH_TAGS =
    [''https://habr.com/ru/hubs/infosecurity/articles/top/alltime{difficulty}/page{page_number}/'',
     ''https://habr.com/ru/hubs/sys_admin/articles/top/alltime{difficulty}/page{page_number}/'',
     ''https://habr.com/ru/hubs/business-laws/articles/top/alltime{difficulty}/page{page_number}/'',
     ''https://habr.com/ru/hubs/linux/articles/top/alltime{difficulty}/page{page_number}/'',
     ''https://habr.com/ru/hubs/devops/articles/top/alltime{difficulty}/page{page_number}/'',
     ''https://habr.com/ru/hubs/s_admin/articles/top/alltime{difficulty}/page{page_number}/'',
     ''https://habr.com/ru/hubs/itstandarts/articles/top/alltime{difficulty}/page{page_number}/'']"

text \<open>\<^verbatim>\<open>initialize_driver\<close>: the session exists once \<^verbatim>\<open>webdriver.Firefox\<close> has returned.\<close>

definition initialize_driver :: "session \<Rightarrow> event list \<Rightarrow> (exception + unit) \<times> event list" where
  "initialize_driver s tr =
     (case firefox s of
        Some e \<Rightarrow> (Inl e, tr)
      | None \<Rightarrow>
          (case install_addon s of
             Some e \<Rightarrow> (Inl e, tr @ [Start])
           | None \<Rightarrow> (Inr (), tr @ [Start])))"

text \<open>
  \<^verbatim>\<open>open_habr_hub\<close>: an exception of the navigation propagates; inside the \<^verbatim>\<open>try\<close>,
  the wait either returns (\<open>True\<close>) or raises, and \<^verbatim>\<open>except Exception\<close> turns whatever it
  raises into \<open>False\<close>.
\<close>

definition open_habr_hub :: "(nat \<Rightarrow> page) \<Rightarrow> nat \<Rightarrow> event list \<Rightarrow> (exception + bool) \<times> event list" where
  "open_habr_hub ps page_number tr =
     (case navigate (ps page_number) of
        Some e \<Rightarrow> (Inl e, tr @ [Open page_number])
      | None \<Rightarrow>
          (case marker_wait (ps page_number) of
             None \<Rightarrow> (Inr True, tr @ [Open page_number])
           | Some e \<Rightarrow> (Inr False, tr @ [Open page_number])))"

text \<open>
  The \<^verbatim>\<open>while True\<close> of \<^verbatim>\<open>scroll_to_load_articles\<close>, entered with the number \<open>i\<close> of the
  next measurement and \<open>last_height\<close>. It has no bound, so it is a partial function:
  \<open>None\<close> is the loop that never ends, \<open>Some (Inl e)\<close> an exception of the driver,
  \<open>Some (Inr i)\<close> the \<^verbatim>\<open>break\<close> at measurement \<open>i\<close>.
\<close>

partial_function (option) scroll_loop ::
  "(nat \<Rightarrow> exception + int) \<Rightarrow> nat \<Rightarrow> int \<Rightarrow> (exception + nat) option" where
  "scroll_loop height i last_height =
     (case height i of
        Inl e \<Rightarrow> Some (Inl e)
      | Inr new_height \<Rightarrow>
          if new_height = last_height then Some (Inr i)
          else scroll_loop height (Suc i) new_height)"

declare scroll_loop.simps [code]

definition scroll_to_load_articles :: "(nat \<Rightarrow> exception + int) \<Rightarrow> (exception + nat) option" where
  "scroll_to_load_articles height =
     (case height 0 of
        Inl e \<Rightarrow> Some (Inl e)
      | Inr last_height \<Rightarrow> scroll_loop height 1 last_height)"

text \<open>\<^verbatim>\<open>parse_article\<close>: the wait, then the text, then the link; the first exception wins.\<close>

definition parse_article :: "node \<Rightarrow> exception + article" where
  "parse_article n =
     (case n of
        Inl e \<Rightarrow> Inl e
      | Inr title_elem \<Rightarrow>
          (case elem_text title_elem of
             Inl e \<Rightarrow> Inl e
           | Inr t \<Rightarrow>
               (case href title_elem of
                  Inl e \<Rightarrow> Inl e
                | Inr l \<Rightarrow> Inr \<lparr>title = t, link = l\<rparr>)))"

text \<open>The \<^verbatim>\<open>for article in articles\<close> of \<^verbatim>\<open>parse_articles\<close>, with its \<^verbatim>\<open>try\<close>.\<close>

fun parse_articles_loop :: "node list \<Rightarrow> article list \<Rightarrow> article list" where
  "parse_articles_loop [] parsed_articles = parsed_articles"
| "parse_articles_loop (n # ns) parsed_articles =
     (case parse_article n of
        Inr parsed_article \<Rightarrow> parse_articles_loop ns (parsed_articles @ [parsed_article])
      | Inl e \<Rightarrow> parse_articles_loop ns parsed_articles)"

definition parse_articles :: "page \<Rightarrow> exception + article list" where
  "parse_articles p =
     (case find_elements p of
        Inl e \<Rightarrow> Inl e
      | Inr articles \<Rightarrow> Inr (parse_articles_loop articles []))"

text \<open>
  The \<^verbatim>\<open>for page_number in range(1, NUM_PAGES_PER_SEARCH + 1)\<close> of \<^verbatim>\<open>parse_hub\<close>, over
  the page numbers left. An exception leaves the loop and the function at once.
\<close>

fun page_loop ::
  "(nat \<Rightarrow> page) \<Rightarrow> nat list \<Rightarrow> article list \<Rightarrow> event list
     \<Rightarrow> ((exception + article list) \<times> event list) option" where
  "page_loop ps [] parsed_articles tr = Some (Inr parsed_articles, tr)"
| "page_loop ps (page_number # rest) parsed_articles tr =
     (case open_habr_hub ps page_number tr of
        (Inl e, tr1) \<Rightarrow> Some (Inl e, tr1)
      | (Inr False, tr1) \<Rightarrow> Some (Inr parsed_articles, tr1)
      | (Inr True, tr1) \<Rightarrow>
          (case scroll_to_load_articles (scroll_height (ps page_number)) of
             None \<Rightarrow> None
           | Some (Inl e) \<Rightarrow> Some (Inl e, tr1 @ [Scroll page_number])
           | Some (Inr i) \<Rightarrow>
               (case parse_articles (ps page_number) of
                  Inl e \<Rightarrow> Some (Inl e, tr1 @ [Scroll page_number, Extract page_number])
                | Inr found \<Rightarrow>
                    page_loop ps rest (parsed_articles @ found)
                      (tr1 @ [Scroll page_number, Extract page_number]))))"

text \<open>
  \<^verbatim>\<open>parse_hub\<close>: the result or the exception that left it, with what was done to the
  browser; \<open>None\<close> when it never returns. \<^verbatim>\<open>driver.quit()\<close> is the statement after the
  loop.
\<close>

definition parse_hub ::
  "web \<Rightarrow> string \<Rightarrow> string \<Rightarrow> ((exception + article list) \<times> event list) option" where
  "parse_hub w hub_url difficulty =
     (case initialize_driver (w hub_url difficulty) [] of
        (Inl e, tr) \<Rightarrow> Some (Inl e, tr)
      | (Inr u, tr) \<Rightarrow>
          (case page_loop (pages (w hub_url difficulty)) [1..<NUM_PAGES_PER_SEARCH + 1] [] tr of
             None \<Rightarrow> None
           | Some (Inl e, tr1) \<Rightarrow> Some (Inl e, tr1)
           | Some (Inr parsed_articles, tr1) \<Rightarrow> Some (Inr parsed_articles, tr1 @ [Quit])))"

section \<open>The scheduler: \<^verbatim>\<open>main\<close>\<close>

text \<open>The values \<^verbatim>\<open>os.getenv\<close> and the pool constructor deal with.\<close>

datatype pyval = PyNone | PyStr string | PyInt int

definition os_getenv :: "(string \<rightharpoonup> string) \<Rightarrow> string \<Rightarrow> pyval" where
  "os_getenv environ k = (case environ k of None \<Rightarrow> PyNone | Some s \<Rightarrow> PyStr s)"

definition CPU_THREADS :: "(string \<rightharpoonup> string) \<Rightarrow> pyval" where
  "CPU_THREADS environ = os_getenv environ ''CPU_THREADS''"

text \<open>
  The pool constructor of the standard library (\<^verbatim>\<open>concurrent.futures.ThreadPoolExecutor\<close>),
  which is not code of this repository, as far as its \<^verbatim>\<open>max_workers\<close> argument goes:
  \<^verbatim>\<open>if max_workers is None: max_workers = min(32, (os.cpu_count() or 1) + 4)\<close>, then
  \<^verbatim>\<open>if max_workers <= 0: raise ValueError(...)\<close>. \<^verbatim>\<open>None\<close> is replaced by the default
  size; comparing a string with \<open>0\<close> raises \<^verbatim>\<open>TypeError\<close>; an integer must be positive.
  \<open>None\<close> is the pool built, \<open>Some e\<close> the exception raised.
\<close>

definition ThreadPoolExecutor :: "pyval \<Rightarrow> exception option" where
  "ThreadPoolExecutor max_workers =
     (case max_workers of
        PyNone \<Rightarrow> None
      | PyStr s \<Rightarrow> Some TypeError
      | PyInt n \<Rightarrow> if n \<le> 0 then Some ValueError else None)"

text \<open>The tasks submitted, in submission order.\<close>

definition futures :: "(string \<times> string) list" where
  "futures = concat (map (\<lambda>hub_url. map (\<lambda>difficulty. (hub_url, difficulty)) ALLOWED_DIFFICULTIES)
                       SEARCH_TAGS)"

text \<open>
  The outcomes of the tasks, in the order given. A task that never returns keeps the pool,
  hence \<^verbatim>\<open>main\<close>, from ever finishing.
\<close>

fun run_tasks :: "web \<Rightarrow> (string \<times> string) list \<Rightarrow> (exception + article list) list option" where
  "run_tasks w [] = Some []"
| "run_tasks w ((hub_url, difficulty) # ts) =
     (case parse_hub w hub_url difficulty of
        None \<Rightarrow> None
      | Some (r, tr) \<Rightarrow>
          (case run_tasks w ts of None \<Rightarrow> None | Some rs \<Rightarrow> Some (r # rs)))"

text \<open>
  \<^verbatim>\<open>for future in as_completed(futures)\<close>: \<^verbatim>\<open>future.result()\<close> returns the list of the
  task or raises the exception that ended it; nothing catches it.
\<close>

fun join_results :: "(exception + article list) list \<Rightarrow> article list \<Rightarrow> exception + article list" where
  "join_results [] parsed_articles = Inr parsed_articles"
| "join_results (Inl e # rs) parsed_articles = Inl e"
| "join_results (Inr result # rs) parsed_articles =
     join_results rs (if result \<noteq> [] then parsed_articles @ result else parsed_articles)"

text \<open>
  \<^verbatim>\<open>main\<close>. Its arguments are the environment after \<^verbatim>\<open>load_dotenv()\<close>, the reaction of
  the library's pool constructor to its \<^verbatim>\<open>max_workers\<close> argument (\<open>Some e\<close>: it raises),
  the web, the order in which \<^verbatim>\<open>as_completed\<close> yields the futures and the order in which
  a set of links is iterated. The result is the file written and the total logged, or the
  exception that ended the run before the writer was called.
\<close>

definition main ::
  "(string \<rightharpoonup> string) \<Rightarrow> (pyval \<Rightarrow> exception option) \<Rightarrow> web
     \<Rightarrow> ((string \<times> string) list \<Rightarrow> (string \<times> string) list) \<Rightarrow> (string list \<Rightarrow> string list)
     \<Rightarrow> (exception + (string \<times> string) list \<times> nat) option" where
  "main environ executor w as_completed iterate =
     (case executor (CPU_THREADS environ) of
        Some e \<Rightarrow> Some (Inl e)
      | None \<Rightarrow>
          (case run_tasks w (as_completed futures) of
             None \<Rightarrow> None
           | Some outcomes \<Rightarrow>
               (case join_results outcomes [] of
                  Inl e \<Rightarrow> Some (Inl e)
                | Inr parsed_articles \<Rightarrow>
                    Some (Inr (save_to_csv (iterate (map link parsed_articles)) parsed_articles,
                               length parsed_articles)))))"

section \<open>Vocabulary of the properties\<close>

text \<open>The marker element is present on a page, or absent from it, once the page is loaded.\<close>

definition marker_present :: "page \<Rightarrow> bool" where
  "marker_present p \<longleftrightarrow> navigate p = None \<and> marker_wait p = None"

definition marker_absent :: "page \<Rightarrow> bool" where
  "marker_absent p \<longleftrightarrow> navigate p = None \<and> marker_wait p \<noteq> None"

text \<open>Exactly the first \<open>K\<close> pages exist.\<close>

definition first_pages_exist :: "nat \<Rightarrow> (nat \<Rightarrow> page) \<Rightarrow> bool" where
  "first_pages_exist K ps \<longleftrightarrow> (\<forall>n \<in> {1..K}. marker_present (ps n)) \<and> marker_absent (ps (Suc K))"

text \<open>The page stabilises under scrolling and the driver returns its article nodes.\<close>

definition page_loads :: "page \<Rightarrow> bool" where
  "page_loads p \<longleftrightarrow>
     (case scroll_to_load_articles (scroll_height p) of
        Some (Inr i) \<Rightarrow> True | Some (Inl e) \<Rightarrow> False | None \<Rightarrow> False)
     \<and> (case find_elements p of Inr ns \<Rightarrow> True | Inl e \<Rightarrow> False)"

definition session_starts :: "session \<Rightarrow> bool" where
  "session_starts s \<longleftrightarrow> firefox s = None \<and> install_addon s = None"

text \<open>The articles that \<^verbatim>\<open>parse_articles\<close> returns on a page whose nodes are found.\<close>

definition extracted :: "page \<Rightarrow> article list" where
  "extracted p = (case find_elements p of Inr ns \<Rightarrow> parse_articles_loop ns [] | Inl e \<Rightarrow> [])"

text \<open>The page was requested by the task.\<close>

definition attempted :: "nat \<Rightarrow> event list \<Rightarrow> bool" where
  "attempted n tr \<longleftrightarrow> Open n \<in> set tr"

text \<open>What a successful node contributes, for stating what the extraction returns.\<close>

definition parsed_of :: "node \<Rightarrow> article option" where
  "parsed_of n = (case parse_article n of Inr a \<Rightarrow> Some a | Inl e \<Rightarrow> None)"

section \<open>Concrete browsers\<close>

definition good_node :: "string \<Rightarrow> string \<Rightarrow> node" where
  "good_node t l = Inr \<lparr>elem_text = Inr t, href = Inr l\<rparr>"

definition timed_out_node :: node where
  "timed_out_node = Inl TimeoutException"

text \<open>A page with the marker, stable at once, holding the given nodes.\<close>

definition listing_page :: "node list \<Rightarrow> page" where
  "listing_page ns =
     \<lparr>navigate = None, marker_wait = None, scroll_height = (\<lambda>i. Inr 1000),
      find_elements = Inr ns\<rparr>"

text \<open>A page that loads but on which the wait for the marker raises \<open>e\<close>.\<close>

definition page_without_marker :: "exception \<Rightarrow> page" where
  "page_without_marker e =
     \<lparr>navigate = None, marker_wait = Some e, scroll_height = (\<lambda>i. Inr 0),
      find_elements = Inr []\<rparr>"

text \<open>A page whose navigation raises.\<close>

definition unreachable_page :: page where
  "unreachable_page =
     \<lparr>navigate = Some WebDriverException, marker_wait = None, scroll_height = (\<lambda>i. Inr 0),
      find_elements = Inr []\<rparr>"

definition one_page_hub :: session where
  "one_page_hub =
     \<lparr>firefox = None, install_addon = None,
      pages = (\<lambda>n. if n = 1 then listing_page [good_node ''A'' ''L1'']
                   else page_without_marker TimeoutException)\<rparr>"

definition two_page_hub :: session where
  "two_page_hub =
     \<lparr>firefox = None, install_addon = None,
      pages = (\<lambda>n. if n = 1 then listing_page [good_node ''A'' ''L1'', timed_out_node]
                   else if n = 2 then listing_page [good_node ''C'' ''L2'']
                   else page_without_marker TimeoutException)\<rparr>"

definition empty_hub :: session where
  "empty_hub =
     \<lparr>firefox = None, install_addon = None, pages = (\<lambda>n. page_without_marker TimeoutException)\<rparr>"

text \<open>One listing page, then a page on which the wait dies of a driver error.\<close>

definition crashing_hub :: session where
  "crashing_hub =
     \<lparr>firefox = None, install_addon = None,
      pages = (\<lambda>n. if n = 1 then listing_page [good_node ''A'' ''L1'']
                   else page_without_marker WebDriverException)\<rparr>"

definition unreachable_hub :: session where
  "unreachable_hub = \<lparr>firefox = None, install_addon = None, pages = (\<lambda>n. unreachable_page)\<rparr>"

definition one_page_web :: web where
  "one_page_web hub_url difficulty = one_page_hub"

definition two_page_web :: web where
  "two_page_web hub_url difficulty = two_page_hub"

definition empty_web :: web where
  "empty_web hub_url difficulty = empty_hub"

definition crashing_web :: web where
  "crashing_web hub_url difficulty = crashing_hub"

definition unreachable_web :: web where
  "unreachable_web hub_url difficulty = unreachable_hub"

text \<open>Every hub has one page, except one task whose navigation raises.\<close>

definition one_failure_web :: web where
  "one_failure_web hub_url difficulty =
     (if hub_url = last SEARCH_TAGS \<and> difficulty = ''/medium'' then unreachable_hub
      else one_page_hub)"

text \<open>A pool constructor that takes whatever it is given.\<close>

definition accepting_executor :: "pyval \<Rightarrow> exception option" where
  "accepting_executor v = None"

text \<open>Three environments: the variable is not set, set to a word, set to a number.\<close>

definition unset_environ :: "string \<rightharpoonup> string" where
  "unset_environ = Map.empty"

definition misconfigured_environ :: "string \<rightharpoonup> string" where
  "misconfigured_environ = [''CPU_THREADS'' \<mapsto> ''many'']"

definition numeric_environ :: "string \<rightharpoonup> string" where
  "numeric_environ = [''CPU_THREADS'' \<mapsto> ''4'']"

text \<open>A page with three nodes, the second of which times out.\<close>

definition mixed_page :: page where
  "mixed_page = listing_page [good_node ''A'' ''L1'', timed_out_node, good_node ''C'' ''L2'']"

definition first_hub :: string where
  "first_hub = hd SEARCH_TAGS"

section \<open>Properties of the writer\<close>

lemma first_with_link_Some:
  "l \<in> set (map link as) \<Longrightarrow> \<exists>a. first_with_link as l = Some a \<and> link a = l \<and> a \<in> set as"
  by (induction as) auto

lemma write_rows_eq_map:
  "set ls \<subseteq> set (map link as) \<Longrightarrow>
   write_rows as ls = map (\<lambda>l. (title (the (first_with_link as l)), l)) ls"
proof (induction ls)
  case Nil
  then show ?case by simp
next
  case (Cons l ls)
  then obtain a where "first_with_link as l = Some a" "link a = l"
    using first_with_link_Some[of l as] by auto
  with Cons show ?case by simp
qed

lemma filter_eq_distinct:
  "distinct ls \<Longrightarrow> l \<in> set ls \<Longrightarrow> filter (\<lambda>x. x = l) ls = [l]"
  by (induction ls) (auto simp: filter_empty_conv)

text \<open>
  C1. Whatever the order in which the set of links is iterated, the data rows of the
  file have pairwise different links, and every link of the input is the link of exactly
  one data row.
\<close>

theorem save_to_csv_no_duplicate_link:
  assumes "set_iteration (map link parsed_articles) unique_links"
  shows "distinct (map snd (data_rows (save_to_csv unique_links parsed_articles)))
       \<and> (\<forall>l \<in> set (map link parsed_articles).
            length (rows_with_link l (data_rows (save_to_csv unique_links parsed_articles))) = 1)"
proof -
  let ?rows = "data_rows (save_to_csv unique_links parsed_articles)"
  from assms have d: "distinct unique_links"
    and s: "set unique_links = set (map link parsed_articles)"
    by (simp_all add: set_iteration_def)
  have rows: "?rows = map (\<lambda>l. (title (the (first_with_link parsed_articles l)), l)) unique_links"
    using s by (simp add: data_rows_def save_to_csv_def write_rows_eq_map)
  have links: "map snd ?rows = unique_links"
    by (simp add: rows comp_def)
  have one: "length (rows_with_link l ?rows) = 1" if "l \<in> set (map link parsed_articles)" for l
  proof -
    have "length (rows_with_link l ?rows) = length (filter (\<lambda>x. x = l) (map snd ?rows))"
      by (simp add: rows_with_link_def filter_map comp_def)
    also have "\<dots> = length [l]"
      using filter_eq_distinct[OF d, of l] that s by (simp add: links)
    finally show ?thesis by simp
  qed
  from d links one show ?thesis by simp
qed

theorem save_to_csv_no_duplicate_link_witness:
  "set_iteration
     (map link [\<lparr>title = ''A'', link = ''L1''\<rparr>, \<lparr>title = ''B'', link = ''L1''\<rparr>,
                \<lparr>title = ''C'', link = ''L2''\<rparr>]) [''L2'', ''L1'']
   \<and> data_rows (save_to_csv [''L2'', ''L1'']
       [\<lparr>title = ''A'', link = ''L1''\<rparr>, \<lparr>title = ''B'', link = ''L1''\<rparr>,
        \<lparr>title = ''C'', link = ''L2''\<rparr>]) = [(''C'', ''L2''), (''A'', ''L1'')]
   \<and> distinct (map snd (data_rows (save_to_csv [''L2'', ''L1'']
       [\<lparr>title = ''A'', link = ''L1''\<rparr>, \<lparr>title = ''B'', link = ''L1''\<rparr>,
        \<lparr>title = ''C'', link = ''L2''\<rparr>])))"
proof -
  have h: "set_iteration
     (map link [\<lparr>title = ''A'', link = ''L1''\<rparr>, \<lparr>title = ''B'', link = ''L1''\<rparr>,
                \<lparr>title = ''C'', link = ''L2''\<rparr>]) [''L2'', ''L1'']"
    by (auto simp: set_iteration_def)
  show ?thesis
    using h save_to_csv_no_duplicate_link[OF h]
    by (simp add: data_rows_def save_to_csv_def)
qed

lemma first_with_link_first:
  "first_with_link as l = Some a \<Longrightarrow>
   \<exists>pre post. as = pre @ a # post \<and> link a = l \<and> (\<forall>b \<in> set pre. link b \<noteq> l)"
proof (induction as)
  case Nil
  then show ?case by simp
next
  case (Cons x as)
  show ?case
  proof (cases "link x = l")
    case True
    with Cons.prems have "x # as = [] @ a # as \<and> link a = l" by simp
    then show ?thesis by (metis empty_iff list.set(1))
  next
    case False
    with Cons obtain pre post where "as = pre @ a # post" "link a = l" "\<forall>b \<in> set pre. link b \<noteq> l"
      by auto
    with False have "x # as = (x # pre) @ a # post \<and> link a = l \<and> (\<forall>b \<in> set (x # pre). link b \<noteq> l)"
      by simp
    then show ?thesis by blast
  qed
qed

text \<open>
  C2. Whatever the order in which the set of links is iterated, the file has as many data
  rows as the input has distinct links, and for each link of the input the only data row
  with that link carries the title of the first article of the input list with that link.
  In particular the input A/L1, B/L1, C/L2 gives exactly the two data rows (A, L1) and
  (C, L2).
\<close>

theorem save_to_csv_first_occurrence:
  assumes "set_iteration (map link parsed_articles) unique_links"
  shows "length (data_rows (save_to_csv unique_links parsed_articles))
           = card (set (map link parsed_articles))
       \<and> (\<forall>l \<in> set (map link parsed_articles).
            \<exists>pre a post. parsed_articles = pre @ a # post \<and> link a = l
              \<and> (\<forall>b \<in> set pre. link b \<noteq> l)
              \<and> rows_with_link l (data_rows (save_to_csv unique_links parsed_articles))
                  = [(title a, l)])
       \<and> (parsed_articles = example_articles \<longrightarrow>
            length (data_rows (save_to_csv unique_links parsed_articles)) = 2
          \<and> set (data_rows (save_to_csv unique_links parsed_articles))
              = {(''A'', ''L1''), (''C'', ''L2'')})"
proof -
  let ?rows = "data_rows (save_to_csv unique_links parsed_articles)"
  let ?f = "\<lambda>l. (title (the (first_with_link parsed_articles l)), l)"
  from assms have d: "distinct unique_links"
    and s: "set unique_links = set (map link parsed_articles)"
    by (simp_all add: set_iteration_def)
  have rows: "?rows = map ?f unique_links"
    using s by (simp add: data_rows_def save_to_csv_def write_rows_eq_map)
  have len: "length ?rows = card (set (map link parsed_articles))"
    using d s distinct_card[of unique_links] by (simp add: rows)
  have one: "\<exists>pre a post. parsed_articles = pre @ a # post \<and> link a = l
              \<and> (\<forall>b \<in> set pre. link b \<noteq> l) \<and> rows_with_link l ?rows = [(title a, l)]"
    if l: "l \<in> set (map link parsed_articles)" for l
  proof -
    from l obtain a where a: "first_with_link parsed_articles l = Some a"
      using first_with_link_Some by blast
    then obtain pre post where sp: "parsed_articles = pre @ a # post" "link a = l"
      "\<forall>b \<in> set pre. link b \<noteq> l"
      using first_with_link_first by blast
    have "rows_with_link l ?rows = map ?f (filter (\<lambda>x. x = l) unique_links)"
      by (simp add: rows rows_with_link_def filter_map comp_def)
    also have "\<dots> = [(title a, l)]"
      using filter_eq_distinct[OF d, of l] l s a by simp
    finally show ?thesis using sp by blast
  qed
  have ex: "length ?rows = 2 \<and> set ?rows = {(''A'', ''L1''), (''C'', ''L2'')}"
    if e: "parsed_articles = example_articles"
  proof -
    have su: "set unique_links = {''L1'', ''L2''}"
      using s by (auto simp: e example_articles_def)
    have "length ?rows = 2"
      using len by (simp add: e example_articles_def)
    moreover have "set ?rows = ?f ` {''L1'', ''L2''}"
      by (simp only: rows set_map su)
    then have "set ?rows = {(''A'', ''L1''), (''C'', ''L2'')}"
      by (simp add: e example_articles_def)
    ultimately show ?thesis by simp
  qed
  show ?thesis
  proof (intro conjI)
    show "length ?rows = card (set (map link parsed_articles))" by (rule len)
    show "\<forall>l \<in> set (map link parsed_articles).
            \<exists>pre a post. parsed_articles = pre @ a # post \<and> link a = l
              \<and> (\<forall>b \<in> set pre. link b \<noteq> l) \<and> rows_with_link l ?rows = [(title a, l)]"
      using one by (rule ballI)
    show "parsed_articles = example_articles \<longrightarrow>
            length ?rows = 2 \<and> set ?rows = {(''A'', ''L1''), (''C'', ''L2'')}"
      using ex by (rule impI)
  qed
qed

theorem save_to_csv_first_occurrence_witness:
  "set_iteration (map link example_articles) [''L2'', ''L1'']
   \<and> data_rows (save_to_csv [''L2'', ''L1''] example_articles)
       = [(''C'', ''L2''), (''A'', ''L1'')]
   \<and> rows_with_link ''L1'' (data_rows (save_to_csv [''L2'', ''L1''] example_articles))
       = [(''A'', ''L1'')]
   \<and> length (data_rows (save_to_csv [''L2'', ''L1''] example_articles)) = 2"
proof -
  have h: "set_iteration (map link example_articles) [''L2'', ''L1'']"
    by (auto simp: set_iteration_def example_articles_def)
  from save_to_csv_first_occurrence[OF h]
  have l: "length (data_rows (save_to_csv [''L2'', ''L1''] example_articles))
             = card (set (map link example_articles))"
    by (rule conjunct1)
  show ?thesis
    using h l
    by (simp add: data_rows_def save_to_csv_def example_articles_def rows_with_link_def)
qed

section \<open>Properties of the scroll loop\<close>

lemma scroll_loop_breaks:
  "h (Suc m) = h m \<Longrightarrow> i \<le> m \<Longrightarrow> (\<forall>j. i \<le> j \<and> j < m \<longrightarrow> h (Suc j) \<noteq> h j) \<Longrightarrow>
   scroll_loop (\<lambda>n. Inr (h n)) (Suc i) (h i) = Some (Inr (Suc m))"
proof (induction "m - i" arbitrary: i)
  case 0
  then have "i = m" by simp
  with "0.prems" show ?case by (subst scroll_loop.simps) simp
next
  case (Suc d)
  then have lt: "i < m" by simp
  with Suc.prems have ne: "h (Suc i) \<noteq> h i" by simp
  have d: "d = m - Suc i" using Suc.hyps(2) by simp
  have "scroll_loop (\<lambda>n. Inr (h n)) (Suc (Suc i)) (h (Suc i)) = Some (Inr (Suc m))"
  proof (rule Suc.hyps(1)[OF d])
    show "h (Suc m) = h m" by (rule Suc.prems(1))
    show "Suc i \<le> m" using lt by simp
    show "\<forall>j. Suc i \<le> j \<and> j < m \<longrightarrow> h (Suc j) \<noteq> h j" using Suc.prems(3) by simp
  qed
  with ne show ?case by (subst scroll_loop.simps) simp
qed

lemma scroll_loop_Some_equal_aux:
  assumes "scroll_loop height i last_height = Some r"
  shows "(\<forall>n. height n = Inr (h n)) \<longrightarrow>
     (\<forall>k. i = Suc k \<longrightarrow> last_height = h k \<longrightarrow> (\<exists>m. k \<le> m \<and> h (Suc m) = h m))"
proof (rule scroll_loop.raw_induct[where P = "\<lambda>height i last_height r.
     (\<forall>n. height n = Inr (h n)) \<longrightarrow>
     (\<forall>k. i = Suc k \<longrightarrow> last_height = h k \<longrightarrow> (\<exists>m. k \<le> m \<and> h (Suc m) = h m))", OF _ assms])
  fix loop :: "(nat \<Rightarrow> exception + int) \<Rightarrow> nat \<Rightarrow> int \<Rightarrow> (exception + nat) option"
    and height i last_height r
  assume IH: "\<And>height i last_height r. loop height i last_height = Some r \<Longrightarrow>
     (\<forall>n. height n = Inr (h n)) \<longrightarrow>
     (\<forall>k. i = Suc k \<longrightarrow> last_height = h k \<longrightarrow> (\<exists>m. k \<le> m \<and> h (Suc m) = h m))"
    and body: "(case height i of Inl e \<Rightarrow> Some (Inl e)
          | Inr new_height \<Rightarrow>
              if new_height = last_height then Some (Inr i)
              else loop height (Suc i) new_height) = Some r"
  show "(\<forall>n. height n = Inr (h n)) \<longrightarrow>
     (\<forall>k. i = Suc k \<longrightarrow> last_height = h k \<longrightarrow> (\<exists>m. k \<le> m \<and> h (Suc m) = h m))"
  proof (intro impI allI)
    fix k
    assume hh: "\<forall>n. height n = Inr (h n)" and i: "i = Suc k" and l: "last_height = h k"
    show "\<exists>m. k \<le> m \<and> h (Suc m) = h m"
    proof (cases "h (Suc k) = h k")
      case True
      then show ?thesis by blast
    next
      case False
      have "height i = Inr (h (Suc k))" using hh i by simp
      with False l i body have "loop height (Suc (Suc k)) (h (Suc k)) = Some r"
        by simp
      from IH[OF this] hh
      obtain m where "Suc k \<le> m" "h (Suc m) = h m" by blast
      then have "k \<le> m \<and> h (Suc m) = h m" by simp
      then show ?thesis by blast
    qed
  qed
qed

lemma scroll_loop_Some_equal:
  "scroll_loop (\<lambda>n. Inr (h n)) (Suc k) (h k) = Some r \<Longrightarrow> \<exists>m. k \<le> m \<and> h (Suc m) = h m"
  using scroll_loop_Some_equal_aux[of "\<lambda>n. Inr (h n)" "Suc k" "h k" r h] by simp

text \<open>
  C5. On a page whose measurements all succeed, \<^verbatim>\<open>scroll_to_load_articles\<close> returns if
  and only if two consecutive measurements of the page height are equal. Nothing bounds
  the number of iterations: when every measurement differs from the one before, the loop
  never ends.
\<close>

theorem scroll_to_load_articles_terminates_iff:
  "((\<exists>r. scroll_to_load_articles (\<lambda>n. Inr (h n)) = Some r) \<longleftrightarrow> (\<exists>m. h (Suc m) = h m))
   \<and> ((\<forall>m. h (Suc m) \<noteq> h m) \<longrightarrow> scroll_to_load_articles (\<lambda>n. Inr (h n)) = None)"
proof -
  have unfold: "scroll_to_load_articles (\<lambda>n. Inr (h n)) = scroll_loop (\<lambda>n. Inr (h n)) (Suc 0) (h 0)"
    by (simp add: scroll_to_load_articles_def)
  have returns: "\<exists>r. scroll_to_load_articles (\<lambda>n. Inr (h n)) = Some r" if "\<exists>m. h (Suc m) = h m"
  proof -
    define m where "m = (LEAST m. h (Suc m) = h m)"
    from that have eq: "h (Suc m) = h m"
      unfolding m_def by (rule LeastI_ex)
    have "\<forall>j. 0 \<le> j \<and> j < m \<longrightarrow> h (Suc j) \<noteq> h j"
      unfolding m_def using not_less_Least by blast
    from scroll_loop_breaks[OF eq _ this]
    have "scroll_loop (\<lambda>n. Inr (h n)) (Suc 0) (h 0) = Some (Inr (Suc m))" by simp
    with unfold show ?thesis by simp
  qed
  have equal: "\<exists>m. h (Suc m) = h m" if "\<exists>r. scroll_to_load_articles (\<lambda>n. Inr (h n)) = Some r"
  proof -
    from that unfold obtain r where "scroll_loop (\<lambda>n. Inr (h n)) (Suc 0) (h 0) = Some r"
      by auto
    from scroll_loop_Some_equal[OF this] show ?thesis by blast
  qed
  have forever: "scroll_to_load_articles (\<lambda>n. Inr (h n)) = None" if "\<forall>m. h (Suc m) \<noteq> h m"
  proof (cases "scroll_to_load_articles (\<lambda>n. Inr (h n))")
    case None
    then show ?thesis .
  next
    case (Some r)
    then have "\<exists>m. h (Suc m) = h m" using equal by blast
    with that show ?thesis by blast
  qed
  show ?thesis
  proof (intro conjI iffI impI)
    show "\<exists>r. scroll_to_load_articles (\<lambda>n. Inr (h n)) = Some r \<Longrightarrow> \<exists>m. h (Suc m) = h m"
      by (rule equal)
    show "\<exists>m. h (Suc m) = h m \<Longrightarrow> \<exists>r. scroll_to_load_articles (\<lambda>n. Inr (h n)) = Some r"
      by (rule returns)
    show "\<forall>m. h (Suc m) \<noteq> h m \<Longrightarrow> scroll_to_load_articles (\<lambda>n. Inr (h n)) = None"
      by (rule forever)
  qed
qed

theorem scroll_to_load_articles_terminates_iff_witness:
  "(\<forall>m. int (Suc m) \<noteq> int m)
   \<and> scroll_to_load_articles (\<lambda>n. Inr (int n)) = None
   \<and> int (min (Suc 3) 3) = int (min 3 3)
   \<and> scroll_to_load_articles (\<lambda>n. Inr (int (min n 3))) = Some (Inr 4)"
proof -
  have grows: "\<forall>m. int (Suc m) \<noteq> int m" by simp
  from scroll_to_load_articles_terminates_iff[of "\<lambda>n. int n"] grows
  have never: "scroll_to_load_articles (\<lambda>n. Inr (int n)) = None" by blast
  have stable: "int (min (Suc 3) 3) = int (min 3 3)" by simp
  then have "\<exists>m. int (min (Suc m) 3) = int (min m 3)" by (rule exI)
  with scroll_to_load_articles_terminates_iff[of "\<lambda>n. int (min n 3)"]
  have returns: "\<exists>r. scroll_to_load_articles (\<lambda>n. Inr (int (min n 3))) = Some r" by blast
  have stops: "scroll_to_load_articles (\<lambda>n. Inr (int (min n 3))) = Some (Inr 4)"
    by (simp add: scroll_to_load_articles_def scroll_loop.simps)
  from grows never stable returns stops show ?thesis by simp
qed

section \<open>Properties of the crawler\<close>

lemma page_range_Cons:
  "[1..<NUM_PAGES_PER_SEARCH + 1] = 1 # [2..<NUM_PAGES_PER_SEARCH + 1]"
  by (simp add: NUM_PAGES_PER_SEARCH_def upt_conv_Cons)

lemma page_range_split:
  assumes "K < NUM_PAGES_PER_SEARCH"
  shows "[1..<NUM_PAGES_PER_SEARCH + 1]
           = [1..<Suc K] @ Suc K # [Suc (Suc K)..<NUM_PAGES_PER_SEARCH + 1]"
proof -
  have "[1..<NUM_PAGES_PER_SEARCH + 1] = [1..<Suc K] @ [Suc K..<NUM_PAGES_PER_SEARCH + 1]"
    using assms upt_add_eq_append[of 1 "Suc K" "NUM_PAGES_PER_SEARCH - K"] by simp
  also have "[Suc K..<NUM_PAGES_PER_SEARCH + 1] = Suc K # [Suc (Suc K)..<NUM_PAGES_PER_SEARCH + 1]"
    using assms by (simp add: upt_conv_Cons)
  finally show ?thesis .
qed

lemma open_habr_hub_present:
  "marker_present (ps n) \<Longrightarrow> open_habr_hub ps n tr = (Inr True, tr @ [Open n])"
  by (simp add: marker_present_def open_habr_hub_def)

lemma open_habr_hub_absent:
  "marker_absent (ps n) \<Longrightarrow> open_habr_hub ps n tr = (Inr False, tr @ [Open n])"
  by (auto simp: marker_absent_def open_habr_hub_def)

lemma page_loop_absent:
  "marker_absent (ps n) \<Longrightarrow>
   page_loop ps (n # rest) parsed tr = Some (Inr parsed, tr @ [Open n])"
  by (simp add: open_habr_hub_absent)

lemma page_loop_step:
  assumes "marker_present (ps n)" and "page_loads (ps n)"
  shows "page_loop ps (n # rest) parsed tr
           = page_loop ps rest (parsed @ extracted (ps n)) (tr @ [Open n, Scroll n, Extract n])"
proof -
  from assms(2) obtain i ns where
    s: "scroll_to_load_articles (scroll_height (ps n)) = Some (Inr i)"
    and f: "find_elements (ps n) = Inr ns"
    by (auto simp: page_loads_def split: option.splits sum.splits)
  from f have "parse_articles (ps n) = Inr (extracted (ps n))"
    by (simp add: parse_articles_def extracted_def)
  with s show ?thesis
    using assms(1) by (simp add: open_habr_hub_present[of ps n])
qed

lemma page_loop_prefix:
  "\<forall>n \<in> set ns. marker_present (ps n) \<and> page_loads (ps n) \<Longrightarrow>
   page_loop ps (ns @ rest) parsed tr
     = page_loop ps rest (parsed @ concat (map (\<lambda>n. extracted (ps n)) ns))
         (tr @ concat (map (\<lambda>n. [Open n, Scroll n, Extract n]) ns))"
proof (induction ns arbitrary: parsed tr)
  case Nil
  then show ?case by simp
next
  case (Cons n ns)
  then have "marker_present (ps n)" "page_loads (ps n)" by simp_all
  from page_loop_step[of ps n, OF this] Cons show ?case by simp
qed


text \<open>
  C4. When the session starts and the marker element is absent from page 1,
  \<^verbatim>\<open>parse_hub\<close> requests page 1 only, scrolls and extracts no page, closes the session
  and returns the empty list.
\<close>

theorem parse_hub_first_page_absent:
  assumes "session_starts (w hub_url difficulty)"
    and "marker_absent (pages (w hub_url difficulty) 1)"
  shows "parse_hub w hub_url difficulty = Some (Inr [], [Start, Open 1, Quit])"
proof -
  from assms(1) have "initialize_driver (w hub_url difficulty) [] = (Inr (), [Start])"
    by (simp add: session_starts_def initialize_driver_def)
  moreover have "page_loop (pages (w hub_url difficulty)) [1..<NUM_PAGES_PER_SEARCH + 1] [] [Start]
      = Some (Inr [], [Start, Open 1])"
    using page_loop_absent[of "pages (w hub_url difficulty)" 1, OF assms(2)]
    by (simp only: page_range_Cons append.simps)
  ultimately have "parse_hub w hub_url difficulty = Some (Inr [], [Start, Open 1] @ [Quit])"
    by (simp only: parse_hub_def prod.case sum.case option.case)
  then show ?thesis by simp
qed

theorem parse_hub_first_page_absent_witness:
  "session_starts (empty_web first_hub ''/hard'')
   \<and> marker_absent (pages (empty_web first_hub ''/hard'') 1)
   \<and> parse_hub empty_web first_hub ''/hard'' = Some (Inr [], [Start, Open 1, Quit])"
proof -
  have s: "session_starts (empty_web first_hub ''/hard'')"
    by (simp add: session_starts_def empty_web_def empty_hub_def)
  have a: "marker_absent (pages (empty_web first_hub ''/hard'') 1)"
    by (simp add: marker_absent_def empty_web_def empty_hub_def page_without_marker_def)
  from s a parse_hub_first_page_absent[of empty_web first_hub "''/hard''", OF s a]
  show ?thesis by simp
qed


lemma Open_in_page_events:
  "Open m \<in> set (concat (map (\<lambda>n. [Open n, Scroll n, Extract n]) ns)) \<longleftrightarrow> m \<in> set ns"
  by (induction ns) auto

lemma parse_hub_run:
  assumes "session_starts (w hub_url difficulty)"
    and "K < NUM_PAGES_PER_SEARCH"
    and pre: "\<forall>n \<in> set [1..<Suc K]. marker_present (pages (w hub_url difficulty) n)
                \<and> page_loads (pages (w hub_url difficulty) n)"
    and absent: "marker_absent (pages (w hub_url difficulty) (Suc K))"
  shows "parse_hub w hub_url difficulty
           = Some (Inr (concat (map (\<lambda>n. extracted (pages (w hub_url difficulty) n)) [1..<Suc K])),
                   Start # concat (map (\<lambda>n. [Open n, Scroll n, Extract n]) [1..<Suc K])
                     @ [Open (Suc K), Quit])"
proof -
  let ?ps = "pages (w hub_url difficulty)"
  let ?tr = "concat (map (\<lambda>n. [Open n, Scroll n, Extract n]) [1..<Suc K])"
  from assms(1) have init: "initialize_driver (w hub_url difficulty) [] = (Inr (), [Start])"
    by (simp add: session_starts_def initialize_driver_def)
  have "page_loop ?ps [1..<NUM_PAGES_PER_SEARCH + 1] [] [Start]
      = page_loop ?ps (Suc K # [Suc (Suc K)..<NUM_PAGES_PER_SEARCH + 1])
          ([] @ concat (map (\<lambda>n. extracted (?ps n)) [1..<Suc K])) ([Start] @ ?tr)"
    using page_loop_prefix[of "[1..<Suc K]" ?ps, OF pre]
    by (simp only: page_range_split[OF assms(2)])
  also have "\<dots> = Some (Inr ([] @ concat (map (\<lambda>n. extracted (?ps n)) [1..<Suc K])),
                       ([Start] @ ?tr) @ [Open (Suc K)])"
    by (rule page_loop_absent[of ?ps "Suc K", OF absent])
  finally have loop: "page_loop ?ps [1..<NUM_PAGES_PER_SEARCH + 1] [] [Start]
      = Some (Inr (concat (map (\<lambda>n. extracted (?ps n)) [1..<Suc K])), Start # ?tr @ [Open (Suc K)])"
    by simp
  have "parse_hub w hub_url difficulty
           = Some (Inr (concat (map (\<lambda>n. extracted (?ps n)) [1..<Suc K])),
                   (Start # ?tr @ [Open (Suc K)]) @ [Quit])"
    by (simp only: parse_hub_def init prod.case sum.case loop option.case)
  then show ?thesis by simp
qed

text \<open>
  C3, as the code has it. When the session starts, exactly the first \<open>K\<close> pages exist
  with \<open>K\<close> below the maximum of 16, and each of them stabilises and hands over its
  nodes, \<^verbatim>\<open>parse_hub\<close> scrolls and extracts pages 1 to \<open>K\<close> in order, requests page
  \<open>K + 1\<close>, finds no marker there, closes the session and returns the articles of the
  \<open>K\<close> pages. Page \<open>K + 1\<close> is requested; page \<open>K + 2\<close> is not.
\<close>

theorem parse_hub_stops_after_probe:
  assumes "session_starts (w hub_url difficulty)"
    and "K < NUM_PAGES_PER_SEARCH"
    and "first_pages_exist K (pages (w hub_url difficulty))"
    and "\<forall>n \<in> {1..K}. page_loads (pages (w hub_url difficulty) n)"
  shows "parse_hub w hub_url difficulty
           = Some (Inr (concat (map (\<lambda>n. extracted (pages (w hub_url difficulty) n)) [1..<Suc K])),
                   Start # concat (map (\<lambda>n. [Open n, Scroll n, Extract n]) [1..<Suc K])
                     @ [Open (Suc K), Quit])
       \<and> attempted (Suc K)
           (Start # concat (map (\<lambda>n. [Open n, Scroll n, Extract n]) [1..<Suc K])
              @ [Open (Suc K), Quit])
       \<and> \<not> attempted (Suc (Suc K))
           (Start # concat (map (\<lambda>n. [Open n, Scroll n, Extract n]) [1..<Suc K])
              @ [Open (Suc K), Quit])"
proof -
  let ?ps = "pages (w hub_url difficulty)"
  let ?tr = "concat (map (\<lambda>n. [Open n, Scroll n, Extract n]) [1..<Suc K])"
  from assms(3,4) have pre: "\<forall>n \<in> set [1..<Suc K]. marker_present (?ps n) \<and> page_loads (?ps n)"
    by (auto simp: first_pages_exist_def)
  from assms(3) have absent: "marker_absent (?ps (Suc K))"
    by (simp add: first_pages_exist_def)
  note run = parse_hub_run[of w hub_url difficulty K, OF assms(1,2) pre absent]
  have yes: "attempted (Suc K) (Start # ?tr @ [Open (Suc K), Quit])"
    by (simp add: attempted_def)
  have no: "\<not> attempted (Suc (Suc K)) (Start # ?tr @ [Open (Suc K), Quit])"
    by (simp add: attempted_def Open_in_page_events)
  from run yes no show ?thesis by (intro conjI)
qed

lemma two_page_hub_first_pages: "first_pages_exist 2 (pages (two_page_web first_hub ''/hard''))"
  by (auto simp: first_pages_exist_def two_page_web_def two_page_hub_def marker_present_def
        marker_absent_def listing_page_def page_without_marker_def)

lemma listing_page_loads: "page_loads (listing_page ns)"
  by (simp add: page_loads_def listing_page_def scroll_to_load_articles_def scroll_loop.simps)

lemma two_page_hub_loads:
  "\<forall>n \<in> {1..2}. page_loads (pages (two_page_web first_hub ''/hard'') n)"
  by (auto simp: two_page_web_def two_page_hub_def listing_page_loads)

theorem parse_hub_stops_after_probe_witness:
  "session_starts (two_page_web first_hub ''/hard'')
   \<and> 2 < NUM_PAGES_PER_SEARCH
   \<and> first_pages_exist 2 (pages (two_page_web first_hub ''/hard''))
   \<and> page_loads (pages (two_page_web first_hub ''/hard'') 1)
   \<and> page_loads (pages (two_page_web first_hub ''/hard'') 2)
   \<and> parse_hub two_page_web first_hub ''/hard''
       = Some (Inr [\<lparr>title = ''A'', link = ''L1''\<rparr>, \<lparr>title = ''C'', link = ''L2''\<rparr>],
               [Start, Open 1, Scroll 1, Extract 1, Open 2, Scroll 2, Extract 2, Open 3, Quit])"
proof -
  have s: "session_starts (two_page_web first_hub ''/hard'')"
    by (simp add: session_starts_def two_page_web_def two_page_hub_def)
  have k: "2 < NUM_PAGES_PER_SEARCH"
    by (simp add: NUM_PAGES_PER_SEARCH_def)
  have r: "[1..<Suc 2] = [1, 2]"
    by (simp add: upt_rec)
  have e1: "extracted (pages (two_page_web first_hub ''/hard'') (Suc 0)) = [\<lparr>title = ''A'', link = ''L1''\<rparr>]"
    by (simp add: extracted_def two_page_web_def two_page_hub_def listing_page_def
          parse_article_def good_node_def timed_out_node_def)
  have e2: "extracted (pages (two_page_web first_hub ''/hard'') 2) = [\<lparr>title = ''C'', link = ''L2''\<rparr>]"
    by (simp add: extracted_def two_page_web_def two_page_hub_def listing_page_def
          parse_article_def good_node_def)
  from parse_hub_stops_after_probe[of two_page_web first_hub "''/hard''" 2,
      OF s k two_page_hub_first_pages two_page_hub_loads, unfolded r]
  have "parse_hub two_page_web first_hub ''/hard''
       = Some (Inr [\<lparr>title = ''A'', link = ''L1''\<rparr>, \<lparr>title = ''C'', link = ''L2''\<rparr>],
               [Start, Open 1, Scroll 1, Extract 1, Open 2, Scroll 2, Extract 2, Open 3, Quit])"
    by (simp add: e1 e2)
  moreover have "page_loads (pages (two_page_web first_hub ''/hard'') 1)"
    and "page_loads (pages (two_page_web first_hub ''/hard'') 2)"
    using two_page_hub_loads by simp_all
  ultimately show ?thesis
    using s k two_page_hub_first_pages by (intro conjI)
qed

lemma one_page_hub_run:
  "parse_hub one_page_web hub_url difficulty
     = Some (Inr [\<lparr>title = ''A'', link = ''L1''\<rparr>],
             [Start, Open 1, Scroll 1, Extract 1, Open 2, Quit])"
proof -
  have s: "session_starts (one_page_web hub_url difficulty)"
    by (simp add: session_starts_def one_page_web_def one_page_hub_def)
  have k: "1 < NUM_PAGES_PER_SEARCH"
    by (simp add: NUM_PAGES_PER_SEARCH_def)
  have f: "first_pages_exist 1 (pages (one_page_web hub_url difficulty))"
    by (simp add: first_pages_exist_def one_page_web_def one_page_hub_def marker_present_def
          marker_absent_def listing_page_def page_without_marker_def)
  have init: "initialize_driver (one_page_web hub_url difficulty) [] = (Inr (), [Start])"
    using s by (simp add: session_starts_def initialize_driver_def)
  have p1: "marker_present (pages (one_page_web hub_url difficulty) 1)"
    by (simp add: one_page_web_def one_page_hub_def marker_present_def listing_page_def)
  have l1: "page_loads (pages (one_page_web hub_url difficulty) 1)"
    by (simp add: one_page_web_def one_page_hub_def listing_page_loads)
  have a2: "marker_absent (pages (one_page_web hub_url difficulty) 2)"
    by (simp add: one_page_web_def one_page_hub_def marker_absent_def page_without_marker_def)
  have e1: "extracted (pages (one_page_web hub_url difficulty) 1) = [\<lparr>title = ''A'', link = ''L1''\<rparr>]"
    by (simp add: extracted_def one_page_web_def one_page_hub_def listing_page_def
          parse_article_def good_node_def)
  have range: "[1..<NUM_PAGES_PER_SEARCH + 1] = 1 # 2 # [3..<NUM_PAGES_PER_SEARCH + 1]"
    by (simp add: NUM_PAGES_PER_SEARCH_def upt_conv_Cons)
  have "page_loop (pages (one_page_web hub_url difficulty)) [1..<NUM_PAGES_PER_SEARCH + 1] [] [Start]
      = Some (Inr [\<lparr>title = ''A'', link = ''L1''\<rparr>], [Start, Open 1, Scroll 1, Extract 1, Open 2])"
    unfolding range
    by (simp only: page_loop_step[of "pages (one_page_web hub_url difficulty)" 1, OF p1 l1]
          page_loop_absent[of "pages (one_page_web hub_url difficulty)" 2, OF a2] e1 append.simps)
  with init have "parse_hub one_page_web hub_url difficulty
     = Some (Inr [\<lparr>title = ''A'', link = ''L1''\<rparr>],
             [Start, Open 1, Scroll 1, Extract 1, Open 2] @ [Quit])"
    by (simp only: parse_hub_def prod.case sum.case option.case)
  then show ?thesis by simp
qed

text \<open>
  C3 as stated fails: on a hub with exactly one page (and 1 < 16), \<^verbatim>\<open>parse_hub\<close>
  requests page 2 before it stops.
\<close>

theorem parse_hub_attempts_next_page:
  "first_pages_exist 1 (pages (one_page_web first_hub ''/hard''))
   \<and> 1 < NUM_PAGES_PER_SEARCH
   \<and> parse_hub one_page_web first_hub ''/hard''
       = Some (Inr [\<lparr>title = ''A'', link = ''L1''\<rparr>],
               [Start, Open 1, Scroll 1, Extract 1, Open 2, Quit])
   \<and> attempted 2 [Start, Open 1, Scroll 1, Extract 1, Open 2, Quit]"
proof -
  have f: "first_pages_exist 1 (pages (one_page_web first_hub ''/hard''))"
    by (simp add: first_pages_exist_def one_page_web_def one_page_hub_def marker_present_def
          marker_absent_def listing_page_def page_without_marker_def)
  have k: "1 < NUM_PAGES_PER_SEARCH"
    by (simp add: NUM_PAGES_PER_SEARCH_def)
  have a: "attempted 2 [Start, Open 1, Scroll 1, Extract 1, Open 2, Quit]"
    by (simp add: attempted_def)
  from f k one_page_hub_run[of first_hub "''/hard''"] a show ?thesis by (intro conjI)
qed


lemma unreachable_hub_run:
  "parse_hub unreachable_web hub_url difficulty = Some (Inl WebDriverException, [Start, Open 1])"
proof -
  have init: "initialize_driver (unreachable_web hub_url difficulty) [] = (Inr (), [Start])"
    by (simp add: initialize_driver_def unreachable_web_def unreachable_hub_def)
  have "open_habr_hub (pages (unreachable_web hub_url difficulty)) 1 [Start]
          = (Inl WebDriverException, [Start, Open 1])"
    by (simp add: open_habr_hub_def unreachable_web_def unreachable_hub_def unreachable_page_def)
  then have "page_loop (pages (unreachable_web hub_url difficulty)) [1..<NUM_PAGES_PER_SEARCH + 1]
               [] [Start] = Some (Inl WebDriverException, [Start, Open 1])"
    by (simp only: page_range_Cons page_loop.simps prod.case sum.case)
  with init show ?thesis
    by (simp only: parse_hub_def prod.case sum.case option.case)
qed

text \<open>
  C6 fails on the code: \<^verbatim>\<open>driver.quit()\<close> is the statement after the loop, with no
  \<^verbatim>\<open>try\<close>/\<^verbatim>\<open>finally\<close> around the loop. When the navigation to page 1 raises, the
  session has been started and \<^verbatim>\<open>parse_hub\<close> ends with the exception, without a call of
  \<^verbatim>\<open>driver.quit()\<close>.
\<close>

theorem parse_hub_leaks_session_on_error:
  "parse_hub unreachable_web first_hub ''/hard'' = Some (Inl WebDriverException, [Start, Open 1])
   \<and> count_list [Start, Open 1] Quit = 0"
  using unreachable_hub_run[of first_hub "''/hard''"] by simp

lemma map_filter_append_list:
  "List.map_filter f (xs @ ys) = List.map_filter f xs @ List.map_filter f ys"
  by (simp add: List.map_filter_def)

lemma parse_articles_loop_map_filter:
  "parse_articles_loop ns parsed = parsed @ List.map_filter parsed_of ns"
  by (induction ns arbitrary: parsed) (auto simp: parsed_of_def split: sum.splits)

text \<open>
  C7. A node whose parsing raises is skipped: the page-level extraction goes on with the
  remaining nodes and returns, in order, the articles of all the nodes that parse; it
  returns what it would return were the failing node not on the page.
\<close>

theorem parse_articles_skips_failed_node:
  assumes "find_elements p = Inr (before @ n # after)"
    and "parse_article n = Inl e"
  shows "parse_articles p
           = Inr (List.map_filter parsed_of before @ List.map_filter parsed_of after)
       \<and> parse_articles p = parse_articles (p\<lparr>find_elements := Inr (before @ after)\<rparr>)"
proof -
  from assms(2) have skip: "parsed_of n = None"
    by (simp add: parsed_of_def)
  have "parse_articles p = Inr (List.map_filter parsed_of (before @ n # after))"
    by (simp add: parse_articles_def assms(1) parse_articles_loop_map_filter)
  also have "List.map_filter parsed_of (before @ n # after)
               = List.map_filter parsed_of before @ List.map_filter parsed_of after"
    by (simp add: map_filter_append_list skip)
  finally have first: "parse_articles p
           = Inr (List.map_filter parsed_of before @ List.map_filter parsed_of after)" .
  have "parse_articles (p\<lparr>find_elements := Inr (before @ after)\<rparr>)
          = Inr (List.map_filter parsed_of before @ List.map_filter parsed_of after)"
    by (simp add: parse_articles_def parse_articles_loop_map_filter map_filter_append_list)
  with first show ?thesis by simp
qed

theorem parse_articles_skips_failed_node_witness:
  "find_elements mixed_page = Inr ([good_node ''A'' ''L1''] @ timed_out_node # [good_node ''C'' ''L2''])
   \<and> parse_article timed_out_node = Inl TimeoutException
   \<and> parse_articles mixed_page
       = Inr [\<lparr>title = ''A'', link = ''L1''\<rparr>, \<lparr>title = ''C'', link = ''L2''\<rparr>]"
proof -
  have f: "find_elements mixed_page
             = Inr ([good_node ''A'' ''L1''] @ timed_out_node # [good_node ''C'' ''L2''])"
    by (simp add: mixed_page_def listing_page_def)
  have t: "parse_article timed_out_node = Inl TimeoutException"
    by (simp add: parse_article_def timed_out_node_def)
  from parse_articles_skips_failed_node[OF f t]
  have "parse_articles mixed_page
          = Inr (List.map_filter parsed_of [good_node ''A'' ''L1'']
                 @ List.map_filter parsed_of [good_node ''C'' ''L2''])"
    by (rule conjunct1)
  then have "parse_articles mixed_page
       = Inr [\<lparr>title = ''A'', link = ''L1''\<rparr>, \<lparr>title = ''C'', link = ''L2''\<rparr>]"
    by (simp add: parsed_of_def parse_article_def good_node_def)
  with f t show ?thesis by (intro conjI)
qed

text \<open>
  C10. Whatever exception the wait for the marker raises, \<^verbatim>\<open>open_habr_hub\<close> returns
  \<open>False\<close>; the page loop stops there and keeps what it has; and \<^verbatim>\<open>parse_hub\<close>, after
  \<open>K\<close> good pages, closes the session and returns their articles instead of raising.
\<close>

theorem open_habr_hub_swallows_any_exception:
  assumes "navigate (ps n) = None" and "marker_wait (ps n) = Some e"
  shows "open_habr_hub ps n tr = (Inr False, tr @ [Open n])
       \<and> page_loop ps (n # rest) parsed tr = Some (Inr parsed, tr @ [Open n])
       \<and> (session_starts (w hub_url difficulty) \<and> pages (w hub_url difficulty) = ps
            \<and> n = Suc K \<and> K < NUM_PAGES_PER_SEARCH
            \<and> (\<forall>m \<in> set [1..<Suc K]. marker_present (ps m) \<and> page_loads (ps m))
          \<longrightarrow> parse_hub w hub_url difficulty
                = Some (Inr (concat (map (\<lambda>m. extracted (ps m)) [1..<Suc K])),
                        Start # concat (map (\<lambda>m. [Open m, Scroll m, Extract m]) [1..<Suc K])
                          @ [Open (Suc K), Quit]))"
proof -
  from assms have absent: "marker_absent (ps n)"
    by (simp add: marker_absent_def)
  have a: "open_habr_hub ps n tr = (Inr False, tr @ [Open n])"
    by (rule open_habr_hub_absent[of ps n, OF absent])
  have b: "page_loop ps (n # rest) parsed tr = Some (Inr parsed, tr @ [Open n])"
    by (rule page_loop_absent[of ps n, OF absent])
  have c: "parse_hub w hub_url difficulty
                = Some (Inr (concat (map (\<lambda>m. extracted (ps m)) [1..<Suc K])),
                        Start # concat (map (\<lambda>m. [Open m, Scroll m, Extract m]) [1..<Suc K])
                          @ [Open (Suc K), Quit])"
    if h: "session_starts (w hub_url difficulty) \<and> pages (w hub_url difficulty) = ps
            \<and> n = Suc K \<and> K < NUM_PAGES_PER_SEARCH
            \<and> (\<forall>m \<in> set [1..<Suc K]. marker_present (ps m) \<and> page_loads (ps m))"
  proof -
    from h have s: "session_starts (w hub_url difficulty)"
      and k: "K < NUM_PAGES_PER_SEARCH"
      and p: "pages (w hub_url difficulty) = ps" and n: "n = Suc K"
      by simp_all
    from h p have pre: "\<forall>m \<in> set [1..<Suc K]. marker_present (pages (w hub_url difficulty) m)
                \<and> page_loads (pages (w hub_url difficulty) m)"
      by simp
    from absent p n have ab: "marker_absent (pages (w hub_url difficulty) (Suc K))"
      by simp
    from parse_hub_run[of w hub_url difficulty K, OF s k pre ab] p show ?thesis
      by simp
  qed
  from a b c show ?thesis by (intro conjI impI)
qed

lemma crashing_hub_first_page:
  "\<forall>m \<in> set [1..<Suc 1]. marker_present (pages crashing_hub m) \<and> page_loads (pages crashing_hub m)"
  by (simp add: crashing_hub_def marker_present_def listing_page_loads) (simp add: listing_page_def)

theorem open_habr_hub_swallows_any_exception_witness:
  "navigate (pages crashing_hub 2) = None
   \<and> marker_wait (pages crashing_hub 2) = Some WebDriverException
   \<and> open_habr_hub (pages crashing_hub) 2 [] = (Inr False, [Open 2])
   \<and> parse_hub crashing_web first_hub ''/hard''
       = Some (Inr [\<lparr>title = ''A'', link = ''L1''\<rparr>],
               [Start, Open 1, Scroll 1, Extract 1, Open 2, Quit])"
proof -
  have nav: "navigate (pages crashing_hub 2) = None"
    by (simp add: crashing_hub_def page_without_marker_def)
  have wait: "marker_wait (pages crashing_hub 2) = Some WebDriverException"
    by (simp add: crashing_hub_def page_without_marker_def)
  note t = open_habr_hub_swallows_any_exception[of "pages crashing_hub" 2 WebDriverException
      "[]" "[]" "[]" crashing_web first_hub "''/hard''" 1, OF nav wait]
  have s: "session_starts (crashing_web first_hub ''/hard'')"
    by (simp add: session_starts_def crashing_web_def crashing_hub_def)
  have p: "pages (crashing_web first_hub ''/hard'') = pages crashing_hub"
    by (simp add: crashing_web_def)
  have k: "(2::nat) = Suc 1 \<and> 1 < NUM_PAGES_PER_SEARCH"
    by (simp add: NUM_PAGES_PER_SEARCH_def)
  have e1: "extracted (pages crashing_hub (Suc 0)) = [\<lparr>title = ''A'', link = ''L1''\<rparr>]"
    by (simp add: extracted_def crashing_hub_def listing_page_def parse_article_def good_node_def)
  from t have o: "open_habr_hub (pages crashing_hub) 2 [] = (Inr False, [] @ [Open 2])"
    by (rule conjunct1)
  from t s p k crashing_hub_first_page
  have "parse_hub crashing_web first_hub ''/hard''
          = Some (Inr (concat (map (\<lambda>m. extracted (pages crashing_hub m)) [1..<Suc 1])),
                  Start # concat (map (\<lambda>m. [Open m, Scroll m, Extract m]) [1..<Suc 1])
                    @ [Open (Suc 1), Quit])"
    by blast
  then have r: "parse_hub crashing_web first_hub ''/hard''
       = Some (Inr [\<lparr>title = ''A'', link = ''L1''\<rparr>],
               [Start, Open 1, Scroll 1, Extract 1, Open 2, Quit])"
    by (simp add: e1)
  from nav wait o r show ?thesis by simp
qed


section \<open>Properties of the scheduler\<close>

lemma parse_hub_session:
  "w hub_url difficulty = s \<Longrightarrow> w' hub_url' difficulty' = s \<Longrightarrow>
   parse_hub w hub_url difficulty = parse_hub w' hub_url' difficulty'"
  unfolding parse_hub_def by (elim ssubst) (rule refl)

lemma one_failure_web_run:
  "parse_hub one_failure_web hub_url difficulty
     = (if hub_url = last SEARCH_TAGS \<and> difficulty = ''/medium''
        then Some (Inl WebDriverException, [Start, Open 1])
        else Some (Inr [\<lparr>title = ''A'', link = ''L1''\<rparr>],
                   [Start, Open 1, Scroll 1, Extract 1, Open 2, Quit]))"
proof (cases "hub_url = last SEARCH_TAGS \<and> difficulty = ''/medium''")
  case True
  then have "one_failure_web hub_url difficulty = unreachable_hub"
    and "unreachable_web hub_url difficulty = unreachable_hub"
    by (simp_all add: one_failure_web_def unreachable_web_def)
  from parse_hub_session[of one_failure_web hub_url difficulty unreachable_hub
      unreachable_web hub_url difficulty, OF this] True
  show ?thesis
    by (simp add: unreachable_hub_run)
next
  case False
  then have "one_failure_web hub_url difficulty = one_page_hub"
    and "one_page_web hub_url difficulty = one_page_hub"
    by (auto simp: one_failure_web_def one_page_web_def)
  from parse_hub_session[of one_failure_web hub_url difficulty one_page_hub
      one_page_web hub_url difficulty, OF this] False
  show ?thesis
    by (simp add: one_page_hub_run)
qed

lemma one_failure_web_tasks:
  "run_tasks one_failure_web futures
     = Some (replicate 13 (Inr [\<lparr>title = ''A'', link = ''L1''\<rparr>]) @ [Inl WebDriverException])"
  by (simp add: futures_def SEARCH_TAGS_def ALLOWED_DIFFICULTIES_def one_failure_web_run
        numeral_eq_Suc)

lemma one_page_web_tasks:
  "run_tasks one_page_web futures = Some (replicate 14 (Inr [\<lparr>title = ''A'', link = ''L1''\<rparr>]))"
  by (simp add: futures_def SEARCH_TAGS_def ALLOWED_DIFFICULTIES_def one_page_hub_run
        numeral_eq_Suc)

lemma join_results_error:
  "Inl e \<in> set rs \<Longrightarrow> \<exists>e'. Inl e' \<in> set rs \<and> join_results rs parsed = Inl e'"
  by (induction rs parsed rule: join_results.induct) auto

lemma join_results_all:
  "\<forall>r \<in> set rs. \<not> isl r \<Longrightarrow> join_results rs parsed = Inr (parsed @ concat (map projr rs))"
  by (induction rs parsed rule: join_results.induct) auto

text \<open>
  C8, as the code has it. Once the pool is built and every task has ended: if some task
  ended with an exception, \<^verbatim>\<open>future.result()\<close> raises in the loop of \<^verbatim>\<open>main\<close>, the run
  ends with the exception of a failed task and the writer is not called; only when no
  task failed are the lists of all tasks, in completion order, merged and given to the
  writer.
\<close>

theorem main_propagates_task_error:
  assumes "executor (CPU_THREADS environ) = None"
    and "run_tasks w (as_completed futures) = Some outcomes"
  shows "(Inl e \<in> set outcomes \<longrightarrow>
            (\<exists>e'. Inl e' \<in> set outcomes
                \<and> main environ executor w as_completed iterate = Some (Inl e')))
       \<and> ((\<forall>r \<in> set outcomes. \<not> isl r) \<longrightarrow>
            main environ executor w as_completed iterate
              = Some (Inr (save_to_csv (iterate (map link (concat (map projr outcomes))))
                             (concat (map projr outcomes)),
                           length (concat (map projr outcomes)))))"
proof (intro conjI impI)
  assume "Inl e \<in> set outcomes"
  from join_results_error[OF this, of "[]"] obtain e' where
    "Inl e' \<in> set outcomes" "join_results outcomes [] = Inl e'" by blast
  then show "\<exists>e'. Inl e' \<in> set outcomes
                \<and> main environ executor w as_completed iterate = Some (Inl e')"
    using assms by (auto simp: main_def)
next
  assume "\<forall>r \<in> set outcomes. \<not> isl r"
  from join_results_all[OF this, of "[]"]
  show "main environ executor w as_completed iterate
              = Some (Inr (save_to_csv (iterate (map link (concat (map projr outcomes))))
                             (concat (map projr outcomes)),
                           length (concat (map projr outcomes))))"
    using assms by (simp add: main_def)
qed

theorem main_propagates_task_error_witness:
  "accepting_executor (CPU_THREADS unset_environ) = None
   \<and> run_tasks one_failure_web (id futures)
       = Some (replicate 13 (Inr [\<lparr>title = ''A'', link = ''L1''\<rparr>]) @ [Inl WebDriverException])
   \<and> main unset_environ accepting_executor one_failure_web id remdups
       = Some (Inl WebDriverException)
   \<and> run_tasks one_page_web (id futures)
       = Some (replicate 14 (Inr [\<lparr>title = ''A'', link = ''L1''\<rparr>]))
   \<and> main unset_environ accepting_executor one_page_web id remdups
       = Some (Inr ([(''Title'', ''Link''), (''A'', ''L1'')], 14))"
proof -
  have x: "accepting_executor (CPU_THREADS unset_environ) = None"
    by (simp add: accepting_executor_def)
  have f: "run_tasks one_failure_web (id futures)
       = Some (replicate 13 (Inr [\<lparr>title = ''A'', link = ''L1''\<rparr>]) @ [Inl WebDriverException])"
    by (simp add: one_failure_web_tasks)
  have g: "run_tasks one_page_web (id futures)
       = Some (replicate 14 (Inr [\<lparr>title = ''A'', link = ''L1''\<rparr>]))"
    by (simp add: one_page_web_tasks)
  from main_propagates_task_error[of accepting_executor unset_environ one_failure_web id _
      WebDriverException remdups, OF x f]
  have bad: "main unset_environ accepting_executor one_failure_web id remdups
       = Some (Inl WebDriverException)"
    by auto
  from main_propagates_task_error[of accepting_executor unset_environ one_page_web id _
      WebDriverException remdups, OF x g]
  have "main unset_environ accepting_executor one_page_web id remdups
     = Some (Inr (save_to_csv
                    (remdups (map link (concat (map projr
                       (replicate 14 (Inr [\<lparr>title = ''A'', link = ''L1''\<rparr>]))))))
                    (concat (map projr (replicate 14 (Inr [\<lparr>title = ''A'', link = ''L1''\<rparr>])))),
                  length (concat (map projr
                    (replicate 14 (Inr [\<lparr>title = ''A'', link = ''L1''\<rparr>]))))))"
    by simp
  then have good: "main unset_environ accepting_executor one_page_web id remdups
       = Some (Inr ([(''Title'', ''Link''), (''A'', ''L1'')], 14))"
    by (simp add: numeral_eq_Suc save_to_csv_def)
  from x f bad g good show ?thesis by (intro conjI)
qed

text \<open>
  C8 as stated fails: thirteen tasks return one article each and the task completing last
  raises; \<^verbatim>\<open>main\<close> ends with that exception and writes nothing.
\<close>

theorem main_loses_results_on_task_error:
  "parse_hub one_failure_web first_hub ''/hard''
     = Some (Inr [\<lparr>title = ''A'', link = ''L1''\<rparr>],
             [Start, Open 1, Scroll 1, Extract 1, Open 2, Quit])
   \<and> parse_hub one_failure_web (last SEARCH_TAGS) ''/medium''
       = Some (Inl WebDriverException, [Start, Open 1])
   \<and> main unset_environ accepting_executor one_failure_web id remdups
       = Some (Inl WebDriverException)"
proof -
  have a: "parse_hub one_failure_web first_hub ''/hard''
     = Some (Inr [\<lparr>title = ''A'', link = ''L1''\<rparr>],
             [Start, Open 1, Scroll 1, Extract 1, Open 2, Quit])"
    by (simp add: one_failure_web_run)
  have b: "parse_hub one_failure_web (last SEARCH_TAGS) ''/medium''
       = Some (Inl WebDriverException, [Start, Open 1])"
    by (simp add: one_failure_web_run)
  have "join_results (replicate 13 (Inr [\<lparr>title = ''A'', link = ''L1''\<rparr>]) @ [Inl WebDriverException]) []
          = Inl WebDriverException"
    by (simp add: numeral_eq_Suc)
  then have c: "main unset_environ accepting_executor one_failure_web id remdups
       = Some (Inl WebDriverException)"
    by (simp add: main_def accepting_executor_def one_failure_web_tasks)
  from a b c show ?thesis by (intro conjI)
qed

lemma one_page_web_main:
  "executor (CPU_THREADS environ) = None \<Longrightarrow>
   main environ executor one_page_web id remdups
     = Some (Inr ([(''Title'', ''Link''), (''A'', ''L1'')], 14))"
proof -
  assume x: "executor (CPU_THREADS environ) = None"
  have j: "join_results (replicate 14 (Inr [\<lparr>title = ''A'', link = ''L1''\<rparr>])) []
             = Inr (replicate 14 \<lparr>title = ''A'', link = ''L1''\<rparr>)"
    by (simp add: numeral_eq_Suc)
  have c: "save_to_csv (remdups (replicate 14 ''L1''))
             (replicate 14 \<lparr>title = ''A'', link = ''L1''\<rparr>)
             = [(''Title'', ''Link''), (''A'', ''L1'')]"
    by (simp add: save_to_csv_def eval_nat_numeral)
  show ?thesis
    by (simp add: main_def x one_page_web_tasks j c)
qed

text \<open>
  C9, as the code has it. \<^verbatim>\<open>CPU_THREADS\<close> is what \<^verbatim>\<open>os.getenv\<close> returns, and
  \<^verbatim>\<open>main\<close> hands it as it is to the pool constructor. When the variable is set, to any
  string whatever, the constructor raises \<^verbatim>\<open>TypeError\<close> and the run ends there, before
  any task. When the variable is absent the value is \<^verbatim>\<open>None\<close>, the constructor accepts
  it, and \<^verbatim>\<open>main\<close> goes on to run the tasks, join them and write the file.
\<close>

theorem CPU_THREADS_passed_raw:
  "CPU_THREADS environ = (case environ ''CPU_THREADS'' of None \<Rightarrow> PyNone | Some s \<Rightarrow> PyStr s)
   \<and> (environ ''CPU_THREADS'' = Some s \<longrightarrow>
         ThreadPoolExecutor (CPU_THREADS environ) = Some TypeError
       \<and> main environ ThreadPoolExecutor w as_completed iterate = Some (Inl TypeError))
   \<and> (environ ''CPU_THREADS'' = None \<longrightarrow>
         ThreadPoolExecutor (CPU_THREADS environ) = None
       \<and> main environ ThreadPoolExecutor w as_completed iterate
           = (case run_tasks w (as_completed futures) of
                None \<Rightarrow> None
              | Some outcomes \<Rightarrow>
                  (case join_results outcomes [] of
                     Inl e \<Rightarrow> Some (Inl e)
                   | Inr parsed_articles \<Rightarrow>
                       Some (Inr (save_to_csv (iterate (map link parsed_articles)) parsed_articles,
                                  length parsed_articles)))))"
proof (intro conjI impI)
  show "CPU_THREADS environ
          = (case environ ''CPU_THREADS'' of None \<Rightarrow> PyNone | Some s \<Rightarrow> PyStr s)"
    by (simp add: CPU_THREADS_def os_getenv_def)
next
  assume "environ ''CPU_THREADS'' = Some s"
  then show "ThreadPoolExecutor (CPU_THREADS environ) = Some TypeError"
    by (simp add: CPU_THREADS_def os_getenv_def ThreadPoolExecutor_def)
  then show "main environ ThreadPoolExecutor w as_completed iterate = Some (Inl TypeError)"
    by (simp add: main_def)
next
  assume "environ ''CPU_THREADS'' = None"
  then show built: "ThreadPoolExecutor (CPU_THREADS environ) = None"
    by (simp add: CPU_THREADS_def os_getenv_def ThreadPoolExecutor_def)
  then show "main environ ThreadPoolExecutor w as_completed iterate
           = (case run_tasks w (as_completed futures) of
                None \<Rightarrow> None
              | Some outcomes \<Rightarrow>
                  (case join_results outcomes [] of
                     Inl e \<Rightarrow> Some (Inl e)
                   | Inr parsed_articles \<Rightarrow>
                       Some (Inr (save_to_csv (iterate (map link parsed_articles)) parsed_articles,
                                  length parsed_articles))))"
    by (simp add: main_def)
qed

theorem CPU_THREADS_passed_raw_witness:
  "misconfigured_environ ''CPU_THREADS'' = Some ''many''
   \<and> main misconfigured_environ ThreadPoolExecutor one_page_web id remdups = Some (Inl TypeError)
   \<and> numeric_environ ''CPU_THREADS'' = Some ''4''
   \<and> main numeric_environ ThreadPoolExecutor one_page_web id remdups = Some (Inl TypeError)
   \<and> unset_environ ''CPU_THREADS'' = None
   \<and> ThreadPoolExecutor (CPU_THREADS unset_environ) = None
   \<and> main unset_environ ThreadPoolExecutor one_page_web id remdups
       = Some (Inr ([(''Title'', ''Link''), (''A'', ''L1'')], 14))"
proof -
  have m: "misconfigured_environ ''CPU_THREADS'' = Some ''many''"
    by (simp add: misconfigured_environ_def)
  have n: "numeric_environ ''CPU_THREADS'' = Some ''4''"
    by (simp add: numeric_environ_def)
  have u: "unset_environ ''CPU_THREADS'' = None"
    by (simp add: unset_environ_def)
  from CPU_THREADS_passed_raw[of misconfigured_environ "''many''" one_page_web id remdups] m
  have m1: "main misconfigured_environ ThreadPoolExecutor one_page_web id remdups
              = Some (Inl TypeError)"
    by blast
  from CPU_THREADS_passed_raw[of numeric_environ "''4''" one_page_web id remdups] n
  have n1: "main numeric_environ ThreadPoolExecutor one_page_web id remdups
              = Some (Inl TypeError)"
    by blast
  from CPU_THREADS_passed_raw[of unset_environ "''''" one_page_web id remdups] u
  have u1: "ThreadPoolExecutor (CPU_THREADS unset_environ) = None"
    by blast
  from one_page_web_main[of ThreadPoolExecutor unset_environ, OF u1]
  have u2: "main unset_environ ThreadPoolExecutor one_page_web id remdups
       = Some (Inr ([(''Title'', ''Link''), (''A'', ''L1'')], 14))" .
  from m m1 n n1 u u1 u2 show ?thesis by (intro conjI)
qed

text \<open>
  C9 as stated fails for the absent variable: \<^verbatim>\<open>CPU_THREADS\<close> is then \<^verbatim>\<open>None\<close>, the
  constructor builds the pool with its default size, and the run crawls the fourteen hubs
  and writes the file.
\<close>

theorem unset_CPU_THREADS_builds_pool:
  "CPU_THREADS unset_environ = PyNone
   \<and> ThreadPoolExecutor (CPU_THREADS unset_environ) = None
   \<and> main unset_environ ThreadPoolExecutor one_page_web id remdups
       = Some (Inr ([(''Title'', ''Link''), (''A'', ''L1'')], 14))"
proof -
  have a: "CPU_THREADS unset_environ = PyNone"
    by (simp add: CPU_THREADS_def os_getenv_def unset_environ_def)
  then have b: "ThreadPoolExecutor (CPU_THREADS unset_environ) = None"
    by (simp add: ThreadPoolExecutor_def)
  from a b one_page_web_main[of ThreadPoolExecutor unset_environ, OF b]
  show ?thesis by (intro conjI)
qed


end
